theory Spec2Isabelle
  imports Main "HOL-Library.Sublist"
begin

section \<open>The lab booking command of \<^verbatim>\<open>plugins/lab.js\<close>\<close>

text \<open>
  The plugin registers one chat command, \<^verbatim>\<open>lab\<close>, whose handler reads a JSON file of
  bookings, runs one of four actions and answers through \<^verbatim>\<open>repondre\<close>. The model
  below makes the handler a function of its environment (clock, file system outcome), the
  argument list and the file on disk, and returns the reply together with the file
  afterwards.

  Strings are byte sequences (UTF-8), so the emoji of the replies are written as their
  bytes. The JSON document is modelled at the shape the plugin itself writes
  (\<^verbatim>\<open>{bookings: [record...]}\<close> with seven string fields per record); the property
  \<^verbatim>\<open>bookings\<close> may be absent, which is the case the \<^verbatim>\<open>view\<close> action tests for.

  Left out of the model: what \<^verbatim>\<open>console.error\<close> prints, the delivery of the reply by
  the host (\<^verbatim>\<open>repondre\<close> is taken to return), and the helper \<^verbatim>\<open>formatDate\<close>, which
  the handler never calls.
\<close>

subsection \<open>JavaScript strings and numbers\<close>

definition nl :: string where
  "nl = [CHR 0x0A]"

definition check_mark :: string where
  "check_mark = [CHR 0xE2, CHR 0x9C, CHR 0x85]"

definition warning_sign :: string where
  "warning_sign = [CHR 0xE2, CHR 0x9A, CHR 0xA0, CHR 0xEF, CHR 0xB8, CHR 0x8F]"

definition clipboard :: string where
  "clipboard = [CHR 0xF0, CHR 0x9F, CHR 0x93, CHR 0x8B]"

definition magnifier :: string where
  "magnifier = [CHR 0xF0, CHR 0x9F, CHR 0x94, CHR 0x8D]"

definition kelvin_sign :: string where
  "kelvin_sign = [CHR 0xE2, CHR 0x84, CHR 0xAA]"

definition lower_char :: "char \<Rightarrow> char" where
  "lower_char c =
     (let n = (of_char c :: nat) in if 65 \<le> n \<and> n \<le> 90 then char_of (n + 32) else c)"

text \<open>
  \<^verbatim>\<open>String.prototype.toLowerCase\<close>, exact wherever its result is an ASCII string: the
  letters A to Z and the Kelvin sign (U+212A, whose lower case is \<^verbatim>\<open>k\<close>) are the only
  code points that lower-case to an ASCII letter. Other code points are left as they are.
\<close>

function toLowerCase :: "string \<Rightarrow> string" where
  "toLowerCase [] = []"
| "toLowerCase (c # cs) =
     (if take 3 (c # cs) = kelvin_sign then CHR ''k'' # toLowerCase (drop 2 cs)
      else lower_char c # toLowerCase cs)"
  by pat_completeness auto
termination
  by (relation "measure length") auto

definition digit_char :: "nat \<Rightarrow> char" where
  "digit_char d = ''0123456789'' ! (d mod 10)"

fun string_of_nat :: "nat \<Rightarrow> string" where
  "string_of_nat n =
     (if n < 10 then [digit_char n] else string_of_nat (n div 10) @ [digit_char (n mod 10)])"

declare string_of_nat.simps [simp del]

text \<open>\<^verbatim>\<open>Number.prototype.toString\<close> on an integer below \<^verbatim>\<open>1e21\<close> in magnitude.\<close>

definition numberToString :: "int \<Rightarrow> string" where
  "numberToString i =
     (if i < 0 then CHR ''-'' # string_of_nat (nat (- i)) else string_of_nat (nat i))"

text \<open>\<^verbatim>\<open>s.slice(-k)\<close>: the last \<open>k\<close> characters, or all of \<open>s\<close> when it is shorter.\<close>

definition slice_last :: "nat \<Rightarrow> string \<Rightarrow> string" where
  "slice_last k s = drop (length s - k) s"

text \<open>\<^verbatim>\<open>args[i]\<close>: \<open>None\<close> is \<^verbatim>\<open>undefined\<close>.\<close>

definition arg :: "string list \<Rightarrow> nat \<Rightarrow> string option" where
  "arg args i = (if i < length args then Some (args ! i) else None)"

text \<open>The truthiness of \<^verbatim>\<open>args[i]\<close>: \<^verbatim>\<open>undefined\<close> and the empty string are falsy.\<close>

definition truthy :: "string option \<Rightarrow> bool" where
  "truthy v = (case v of None \<Rightarrow> False | Some s \<Rightarrow> s \<noteq> [])"

subsection \<open>The two regular expressions\<close>

datatype regex =
    Bol
  | Eol
  | Digit
  | Lit char
  | Seq regex regex
  | Rep nat nat regex

definition is_digit :: "char \<Rightarrow> bool" where
  "is_digit c = (c \<in> set ''0123456789'')"

text \<open>
  A matcher state is the number of characters before the current position and the rest of
  the input. \<open>rep_run\<close> is the greedy quantifier \<^verbatim>\<open>{m,n}\<close>; \<open>run\<close> returns every state
  in which a match of the expression can end, in backtracking order.
\<close>

fun rep_run ::
  "(nat \<times> string \<Rightarrow> (nat \<times> string) list) \<Rightarrow> nat \<Rightarrow> nat \<Rightarrow> nat \<times> string \<Rightarrow> (nat \<times> string) list"
where
  "rep_run f 0 0 st = [st]"
| "rep_run f 0 (Suc n) st = concat (map (rep_run f 0 n) (f st)) @ [st]"
| "rep_run f (Suc m) 0 st = []"
| "rep_run f (Suc m) (Suc n) st = concat (map (rep_run f m n) (f st))"

primrec run :: "regex \<Rightarrow> nat \<times> string \<Rightarrow> (nat \<times> string) list" where
  "run Bol = (\<lambda>st. if fst st = 0 then [st] else [])"
| "run Eol = (\<lambda>st. if snd st = [] then [st] else [])"
| "run Digit = (\<lambda>st. case snd st of [] \<Rightarrow> []
     | c # cs \<Rightarrow> if is_digit c then [(Suc (fst st), cs)] else [])"
| "run (Lit a) = (\<lambda>st. case snd st of [] \<Rightarrow> []
     | c # cs \<Rightarrow> if c = a then [(Suc (fst st), cs)] else [])"
| "run (Seq r1 r2) = (\<lambda>st. concat (map (run r2) (run r1 st)))"
| "run (Rep m n r) = rep_run (run r) m n"

text \<open>\<^verbatim>\<open>RegExp.prototype.test\<close>: is there a match starting at some position of the input.\<close>

definition test :: "regex \<Rightarrow> string \<Rightarrow> bool" where
  "test r s = (\<exists>i \<in> set [0..<Suc (length s)]. run r (i, drop i s) \<noteq> [])"

text \<open>\<^verbatim>\<open>/^\d{4}-\d{2}-\d{2}$/\<close>\<close>

definition date_regex :: regex where
  "date_regex =
     Seq Bol (Seq (Rep 4 4 Digit) (Seq (Lit CHR ''-'') (Seq (Rep 2 2 Digit)
       (Seq (Lit CHR ''-'') (Seq (Rep 2 2 Digit) Eol)))))"

text \<open>\<^verbatim>\<open>/^\d{1,2}:\d{2}$/\<close>\<close>

definition time_regex :: regex where
  "time_regex = Seq Bol (Seq (Rep 1 2 Digit) (Seq (Lit CHR '':'') (Seq (Rep 2 2 Digit) Eol)))"

text \<open>\<^verbatim>\<open>/^LAB\d{6}$/\<close>, the form of a booking id.\<close>

definition lab_id_regex :: regex where
  "lab_id_regex =
     Seq Bol (Seq (Lit CHR ''L'') (Seq (Lit CHR ''A'') (Seq (Lit CHR ''B'')
       (Seq (Rep 6 6 Digit) Eol))))"

subsection \<open>The store and the file system\<close>

record booking =
  id_str :: string
  customerName :: string
  date :: string
  time :: string
  labType :: string
  status :: string
  bookingTime :: string

text \<open>The parsed document; \<open>bookings = None\<close> is a document without that property.\<close>

record bookingsData =
  bookings :: "booking list option"

text \<open>
  The text of the file at \<^verbatim>\<open>bookingsFilePath\<close>: either text that \<^verbatim>\<open>JSON.parse\<close>
  rejects, or the JSON text of a document. The disk holds the file or not.
\<close>

datatype file_text = Unparseable string | Json_text bookingsData

type_synonym disk = "file_text option"

datatype js_error = ENOENT | EACCES | SyntaxError | TypeError

text \<open>
  What an invocation reads from outside: \<^verbatim>\<open>Date.now()\<close>, \<^verbatim>\<open>new Date().toISOString()\<close>,
  the host's \<^verbatim>\<open>toLocaleString\<close> rendering of a stored time, and whether the file
  system lets the file be read and lets the directory and file be written.
\<close>

record env =
  now :: int
  isoNow :: string
  toLocaleString :: "string \<Rightarrow> string"
  read_ok :: bool
  write_ok :: bool

definition empty_document :: bookingsData where
  "empty_document = \<lparr>bookings = Some []\<rparr>"

definition readFile :: "env \<Rightarrow> disk \<Rightarrow> js_error + file_text" where
  "readFile e d =
     (case d of None \<Rightarrow> Inl ENOENT
      | Some t \<Rightarrow> if read_ok e then Inr t else Inl EACCES)"

definition JSON_parse :: "file_text \<Rightarrow> js_error + bookingsData" where
  "JSON_parse t = (case t of Unparseable _ \<Rightarrow> Inl SyntaxError | Json_text doc \<Rightarrow> Inr doc)"

text \<open>\<^verbatim>\<open>try { ... } catch (error) { ... }\<close> on a computation that may throw.\<close>

definition try_catch :: "js_error + 'a \<Rightarrow> (js_error \<Rightarrow> js_error + 'a) \<Rightarrow> js_error + 'a" where
  "try_catch body handler_fn = (case body of Inl e \<Rightarrow> handler_fn e | Inr v \<Rightarrow> Inr v)"

definition and_then :: "js_error + 'a \<Rightarrow> ('a \<Rightarrow> js_error + 'b) \<Rightarrow> js_error + 'b" where
  "and_then m f = (case m of Inl e \<Rightarrow> Inl e | Inr v \<Rightarrow> f v)"

definition loadBookings :: "env \<Rightarrow> disk \<Rightarrow> js_error + bookingsData" where
  "loadBookings e d =
     try_catch (and_then (readFile e d) JSON_parse) (\<lambda>error. Inr empty_document)"

text \<open>
  \<^verbatim>\<open>saveBookings\<close>: the success flag and the disk afterwards. A failing \<^verbatim>\<open>mkdir\<close> or
  \<^verbatim>\<open>writeFile\<close> is caught inside the function and leaves the file as it was.
\<close>

definition saveBookings :: "env \<Rightarrow> bookingsData \<Rightarrow> disk \<Rightarrow> bool \<times> disk" where
  "saveBookings e doc d = (if write_ok e then (True, Some (Json_text doc)) else (False, d))"

subsection \<open>Replies\<close>

definition help_message :: string where
  "help_message =
     ''*Lab Booking System*'' @ nl @ nl @
     ''Available commands:'' @ nl @
     ''- *book [name] [date] [time] [lab-type]* - Book a lab slot'' @ nl @
     ''- *view* - View all bookings'' @ nl @
     ''- *cancel [booking-id]* - Cancel a booking'' @ nl @
     ''- *status [booking-id]* - Check booking status'' @ nl @ nl @
     ''Example: lab book John 2025-05-20 14:00 chemistry''"

definition missing_info_message :: string where
  "missing_info_message =
     ''*Please provide all required information:* name, date, time, and lab-type''"

definition invalid_date_message :: string where
  "invalid_date_message = ''*Invalid date format.* Please use YYYY-MM-DD format.''"

definition invalid_time_message :: string where
  "invalid_time_message = ''*Invalid time format.* Please use HH:MM format.''"

definition confirmation_message :: "string \<Rightarrow> string \<Rightarrow> string \<Rightarrow> string \<Rightarrow> string \<Rightarrow> string" where
  "confirmation_message bookingId name date_arg time_arg labType_arg =
     ''*'' @ check_mark @ '' Lab Booking Confirmed!*'' @ nl @ nl @
     ''*Booking ID:* '' @ bookingId @ nl @
     ''*Customer:* '' @ name @ nl @
     ''*Date:* '' @ date_arg @ nl @
     ''*Time:* '' @ time_arg @ nl @
     ''*Lab Type:* '' @ labType_arg @ nl @ nl @
     ''To check status, use: lab status '' @ bookingId"

definition save_failed_message :: string where
  "save_failed_message = ''*'' @ warning_sign @ '' Failed to save booking. Please try again.*''"

definition no_bookings_message :: string where
  "no_bookings_message = ''*No bookings found.*''"

definition list_header :: string where
  "list_header = ''*'' @ clipboard @ '' Lab Bookings List*'' @ nl @ nl"

text \<open>One iteration of the \<^verbatim>\<open>forEach\<close> of the view action, at array index \<open>index\<close>.\<close>

definition list_entry :: "booking \<Rightarrow> nat \<Rightarrow> string" where
  "list_entry b index =
     ''*Booking #'' @ numberToString (int index + 1) @ ''*'' @ nl @
     ''ID: '' @ id_str b @ nl @
     ''Customer: '' @ customerName b @ nl @
     ''Date: '' @ date b @ nl @
     ''Time: '' @ time b @ nl @
     ''Lab Type: '' @ labType b @ nl @
     ''Status: '' @ status b @ nl @ nl"

definition cancel_missing_id_message :: string where
  "cancel_missing_id_message = ''*Please provide a booking ID to cancel.*''"

definition not_found_message :: "string \<Rightarrow> string" where
  "not_found_message i = ''*Booking with ID '' @ i @ '' not found.*''"

definition cancelled_message :: "string \<Rightarrow> string" where
  "cancelled_message i =
     ''*'' @ check_mark @ '' Booking '' @ i @ '' has been cancelled successfully.*''"

definition cancel_failed_message :: string where
  "cancel_failed_message =
     ''*'' @ warning_sign @ '' Failed to cancel booking. Please try again.*''"

definition status_missing_id_message :: string where
  "status_missing_id_message = ''*Please provide a booking ID to check status.*''"

definition status_message :: "env \<Rightarrow> booking \<Rightarrow> string" where
  "status_message e b =
     ''*'' @ magnifier @ '' Booking Status*'' @ nl @ nl @
     ''*Booking ID:* '' @ id_str b @ nl @
     ''*Customer:* '' @ customerName b @ nl @
     ''*Date:* '' @ date b @ nl @
     ''*Time:* '' @ time b @ nl @
     ''*Lab Type:* '' @ labType b @ nl @
     ''*Status:* '' @ status b @ nl @
     ''*Booked on:* '' @ toLocaleString e (bookingTime b)"

definition unknown_command_message :: string where
  "unknown_command_message =
     ''*Unknown command.* Use '' @ [CHR 0x27] @ ''lab'' @ [CHR 0x27] @
     '' without arguments to see available commands.''"

definition error_message :: string where
  "error_message =
     ''*'' @ warning_sign @
     '' An error occurred while processing your request. Please try again.*''"

subsection \<open>The handler\<close>

text \<open>
  What one invocation does: the text given to \<^verbatim>\<open>repondre\<close>, whether \<^verbatim>\<open>loadBookings\<close>
  was called, the documents handed to \<^verbatim>\<open>saveBookings\<close> (in call order) and the disk
  when the handler returns.
\<close>

record outcome =
  reply :: string
  loaded :: bool
  saves :: "bookingsData list"
  disk_after :: disk

text \<open>A reply on a path that loaded the store and called \<^verbatim>\<open>saveBookings\<close> nowhere.\<close>

definition respond :: "string \<Rightarrow> disk \<Rightarrow> outcome" where
  "respond msg d = \<lparr>reply = msg, loaded = True, saves = [], disk_after = d\<rparr>"

text \<open>
  Calling a method on \<^verbatim>\<open>bookingsData.bookings\<close>: a \<^verbatim>\<open>TypeError\<close> when the property
  is absent.
\<close>

definition bookings_array :: "bookingsData \<Rightarrow> js_error + booking list" where
  "bookings_array doc = (case bookings doc of None \<Rightarrow> Inl TypeError | Some bs \<Rightarrow> Inr bs)"

fun findIndex_from :: "('a \<Rightarrow> bool) \<Rightarrow> 'a list \<Rightarrow> nat \<Rightarrow> int" where
  "findIndex_from p [] i = - 1"
| "findIndex_from p (x # xs) i = (if p x then int i else findIndex_from p xs (Suc i))"

definition findIndex :: "('a \<Rightarrow> bool) \<Rightarrow> 'a list \<Rightarrow> int" where
  "findIndex p xs = findIndex_from p xs 0"

definition book :: "env \<Rightarrow> string list \<Rightarrow> bookingsData \<Rightarrow> disk \<Rightarrow> js_error + outcome" where
  "book e args doc d =
     (if length args < 5 then Inr (respond missing_info_message d)
      else
        let name = args ! 1; date_arg = args ! 2; time_arg = args ! 3; labType_arg = args ! 4
        in
          if \<not> test date_regex date_arg then Inr (respond invalid_date_message d)
          else if \<not> test time_regex time_arg then Inr (respond invalid_time_message d)
          else
            let bookingId = ''LAB'' @ slice_last 6 (numberToString (now e));
                newBooking = \<lparr>id_str = bookingId, customerName = name, date = date_arg,
                  time = time_arg, labType = labType_arg, status = ''confirmed'',
                  bookingTime = isoNow e\<rparr>
            in and_then (bookings_array doc) (\<lambda>bs.
                 let doc' = doc\<lparr>bookings := Some (bs @ [newBooking])\<rparr>;
                     (saved, d') = saveBookings e doc' d
                 in Inr \<lparr>reply =
                           (if saved
                            then confirmation_message bookingId name date_arg time_arg labType_arg
                            else save_failed_message),
                         loaded = True, saves = [doc'], disk_after = d'\<rparr>))"

fun view_loop :: "booking list \<Rightarrow> nat \<Rightarrow> string \<Rightarrow> string" where
  "view_loop [] index response = response"
| "view_loop (b # bs) index response = view_loop bs (Suc index) (response @ list_entry b index)"

definition view :: "bookingsData \<Rightarrow> disk \<Rightarrow> js_error + outcome" where
  "view doc d =
     (case bookings doc of
        None \<Rightarrow> Inr (respond no_bookings_message d)
      | Some bs \<Rightarrow>
          if length bs = 0 then Inr (respond no_bookings_message d)
          else Inr (respond (view_loop bs 0 list_header) d))"

definition cancel :: "env \<Rightarrow> string list \<Rightarrow> bookingsData \<Rightarrow> disk \<Rightarrow> js_error + outcome" where
  "cancel e args doc d =
     (if \<not> truthy (arg args 1) then Inr (respond cancel_missing_id_message d)
      else
        let cancelId = args ! 1
        in and_then (bookings_array doc) (\<lambda>bs.
             let bookingIndex = findIndex (\<lambda>b. id_str b = cancelId) bs
             in
               if bookingIndex = - 1 then Inr (respond (not_found_message cancelId) d)
               else
                 let i = nat bookingIndex;
                     doc' = doc\<lparr>bookings := Some (bs[i := (bs ! i)\<lparr>status := ''cancelled''\<rparr>])\<rparr>;
                     (cancelSaved, d') = saveBookings e doc' d
                 in Inr \<lparr>reply =
                           (if cancelSaved then cancelled_message cancelId
                            else cancel_failed_message),
                         loaded = True, saves = [doc'], disk_after = d'\<rparr>))"

definition status_action ::
  "env \<Rightarrow> string list \<Rightarrow> bookingsData \<Rightarrow> disk \<Rightarrow> js_error + outcome" where
  "status_action e args doc d =
     (if \<not> truthy (arg args 1) then Inr (respond status_missing_id_message d)
      else
        let statusId = args ! 1
        in and_then (bookings_array doc) (\<lambda>bs.
             case List.find (\<lambda>b. id_str b = statusId) bs of
               None \<Rightarrow> Inr (respond (not_found_message statusId) d)
             | Some b \<Rightarrow> Inr (respond (status_message e b) d)))"

text \<open>The \<^verbatim>\<open>switch (action)\<close> on the loaded document.\<close>

definition switch_action ::
  "string \<Rightarrow> env \<Rightarrow> string list \<Rightarrow> bookingsData \<Rightarrow> disk \<Rightarrow> js_error + outcome" where
  "switch_action action e args doc d =
     (if action = ''book'' then book e args doc d
      else if action = ''view'' then view doc d
      else if action = ''cancel'' then cancel e args doc d
      else if action = ''status'' then status_action e args doc d
      else Inr (respond unknown_command_message d))"

definition catch_all :: "js_error + outcome \<Rightarrow> disk \<Rightarrow> js_error + outcome" where
  "catch_all body d = try_catch body (\<lambda>error. Inr (respond error_message d))"

definition handler :: "env \<Rightarrow> string list \<Rightarrow> disk \<Rightarrow> js_error + outcome" where
  "handler e args d =
     (if \<not> truthy (arg args 0)
      then Inr \<lparr>reply = help_message, loaded = False, saves = [], disk_after = d\<rparr>
      else
        let action = toLowerCase (args ! 0)
        in catch_all
             (and_then (loadBookings e d) (\<lambda>doc. switch_action action e args doc d)) d)"

text \<open>
  The action keyword of an invocation, as the handler computes it: \<open>None\<close> when the
  first argument is missing or empty (the help path), else its lower case.
\<close>

definition action_of :: "string list \<Rightarrow> string option" where
  "action_of args = (if truthy (arg args 0) then Some (toLowerCase (args ! 0)) else None)"

text \<open>
  An action result that saved nothing: a \<^verbatim>\<open>TypeError\<close> thrown before any save, or a
  plain reply.
\<close>

definition quiet :: "js_error + outcome \<Rightarrow> disk \<Rightarrow> bool" where
  "quiet res d = (res = Inl TypeError \<or> (\<exists>m. res = Inr (respond m d)))"

subsection \<open>Example data\<close>

text \<open>
  An environment, and a store in which two records share an id (two bookings made in
  milliseconds that agree in their last six digits).
\<close>

definition env0 :: env where
  "env0 = \<lparr>now = 1747749600123, isoNow = ''2025-05-20T14:00:00.123Z'',
     toLocaleString = (\<lambda>s. s), read_ok = True, write_ok = True\<rparr>"

definition alice :: booking where
  "alice = \<lparr>id_str = ''LAB600123'', customerName = ''Alice'', date = ''2025-05-20'',
     time = ''14:00'', labType = ''chemistry'', status = ''confirmed'',
     bookingTime = ''2025-05-20T14:00:00.123Z''\<rparr>"

definition bob :: booking where
  "bob = \<lparr>id_str = ''LAB600123'', customerName = ''Bob'', date = ''2025-06-01'',
     time = ''9:05'', labType = ''physics'', status = ''confirmed'',
     bookingTime = ''2025-06-01T03:46:40.123Z''\<rparr>"

definition store0 :: bookingsData where
  "store0 = \<lparr>bookings = Some [alice, bob]\<rparr>"

section \<open>Properties\<close>

subsection \<open>What the regular expressions accept\<close>

lemma test_anchored: "test (Seq Bol r) s = (run r (0, s) \<noteq> [])"
proof -
  have "run (Seq Bol r) (i, drop i s) = (if i = 0 then run r (0, s) else [])" for i
    by simp
  then show ?thesis
    unfolding test_def by (auto simp del: run.simps upt_Suc)
qed

lemma run_nonempty: "(run r st \<noteq> []) = (\<exists>x. x \<in> set (run r st))"
  by (cases "run r st") auto

lemma in_run_Digit:
  "x \<in> set (run Digit st) \<longleftrightarrow> (\<exists>c cs. snd st = c # cs \<and> is_digit c \<and> x = (Suc (fst st), cs))"
  by (cases "snd st") auto

lemma in_run_Lit:
  "x \<in> set (run (Lit a) st) \<longleftrightarrow> (\<exists>cs. snd st = a # cs \<and> x = (Suc (fst st), cs))"
  by (cases "snd st") auto

lemma in_run_Eol: "x \<in> set (run Eol st) \<longleftrightarrow> snd st = [] \<and> x = st"
  by auto

lemma in_run_Seq:
  "x \<in> set (run (Seq r1 r2) st) \<longleftrightarrow> (\<exists>y \<in> set (run r1 st). x \<in> set (run r2 y))"
  by auto

lemma in_run_Rep: "x \<in> set (run (Rep m n r) st) \<longleftrightarrow> x \<in> set (rep_run (run r) m n st)"
  by simp

lemma in_rep_run_Suc:
  "x \<in> set (rep_run f (Suc m) (Suc n) st) \<longleftrightarrow> (\<exists>y \<in> set (f st). x \<in> set (rep_run f m n y))"
  by auto

lemma in_rep_run_0_Suc:
  "x \<in> set (rep_run f 0 (Suc n) st) \<longleftrightarrow> x = st \<or> (\<exists>y \<in> set (f st). x \<in> set (rep_run f 0 n y))"
  by auto

lemma in_rep_run_0: "x \<in> set (rep_run f 0 0 st) \<longleftrightarrow> x = st"
  by auto

lemmas in_run = in_run_Digit in_run_Lit in_run_Eol in_run_Seq in_run_Rep
  in_rep_run_Suc in_rep_run_0_Suc in_rep_run_0

lemma test_date_regex:
  "test date_regex s \<longleftrightarrow>
     (\<exists>a b c d e f g h. s = [a, b, c, d, CHR ''-'', e, f, CHR ''-'', g, h] \<and>
        is_digit a \<and> is_digit b \<and> is_digit c \<and> is_digit d \<and>
        is_digit e \<and> is_digit f \<and> is_digit g \<and> is_digit h)"
  unfolding date_regex_def test_anchored run_nonempty
  by (simp only: in_run numeral_eq_Suc pred_numeral_simps Num.BitM.simps) auto

lemma test_time_regex:
  "test time_regex s \<longleftrightarrow>
     (\<exists>a c d. s = [a, CHR '':'', c, d] \<and> is_digit a \<and> is_digit c \<and> is_digit d) \<or>
     (\<exists>a b c d. s = [a, b, CHR '':'', c, d] \<and> is_digit a \<and> is_digit b \<and> is_digit c \<and> is_digit d)"
  unfolding time_regex_def test_anchored run_nonempty
  by (simp only: in_run numeral_eq_Suc pred_numeral_simps Num.BitM.simps One_nat_def) auto

lemma test_lab_id_regex:
  "test lab_id_regex s \<longleftrightarrow>
     (\<exists>a b c d e f. s = ''LAB'' @ [a, b, c, d, e, f] \<and>
        is_digit a \<and> is_digit b \<and> is_digit c \<and> is_digit d \<and> is_digit e \<and> is_digit f)"
  unfolding lab_id_regex_def test_anchored run_nonempty
  by (simp only: in_run numeral_eq_Suc pred_numeral_simps Num.BitM.simps) auto

subsection \<open>The decimal rendering of the timestamp\<close>

lemma digit_char_is_digit: "is_digit (digit_char d)"
proof -
  have "d mod 10 = 0 \<or> d mod 10 = 1 \<or> d mod 10 = 2 \<or> d mod 10 = 3 \<or> d mod 10 = 4 \<or>
    d mod 10 = 5 \<or> d mod 10 = 6 \<or> d mod 10 = 7 \<or> d mod 10 = 8 \<or> d mod 10 = 9"
    by arith
  then show ?thesis
    unfolding digit_char_def is_digit_def by (elim disjE) simp_all
qed

lemma string_of_nat_digits: "c \<in> set (string_of_nat n) \<Longrightarrow> is_digit c"
proof (induction n rule: string_of_nat.induct)
  case (1 n)
  then show ?case
    by (subst (asm) (2) string_of_nat.simps) (auto simp: digit_char_is_digit split: if_splits)
qed

lemma length_string_of_nat: "10 ^ k \<le> n \<Longrightarrow> k < length (string_of_nat n)"
proof (induction k arbitrary: n)
  case 0
  then show ?case by (subst string_of_nat.simps) simp
next
  case (Suc k)
  then have big: "10 * 10 ^ k \<le> n" by simp
  have "10 * 1 \<le> 10 * (10::nat) ^ k"
    by (rule mult_le_mono2) simp
  then have "10 * 1 \<le> n"
    using big by (rule le_trans)
  then have "\<not> n < 10" by simp
  moreover from big have "10 ^ k \<le> n div 10"
    by (simp add: less_eq_div_iff_mult_less_eq)
  ultimately have "10 ^ k \<le> n div 10" and "\<not> n < 10" by simp_all
  then show ?case
    using Suc.IH [of "n div 10"] by (subst string_of_nat.simps) simp
qed

lemma slice_last_6_shape:
  assumes "6 \<le> length s"
  shows "\<exists>a b c d e f. slice_last 6 s = [a, b, c, d, e, f] \<and> set [a, b, c, d, e, f] \<subseteq> set s"
proof -
  have len: "length (slice_last 6 s) = 6"
    using assms by (simp add: slice_last_def)
  have sub: "set (slice_last 6 s) \<subseteq> set s"
    by (simp add: slice_last_def set_drop_subset)
  from len obtain a b c d e f where "slice_last 6 s = [a, b, c, d, e, f]"
    by (auto simp: length_Suc_conv numeral_eq_Suc)
  with sub show ?thesis by auto
qed

lemma bookingId_form:
  assumes "100000 \<le> t"
  shows "test lab_id_regex (''LAB'' @ slice_last 6 (numberToString t))"
proof -
  have nn: "numberToString t = string_of_nat (nat t)"
    using assms by (simp add: numberToString_def)
  have "10 ^ 5 \<le> nat t" using assms by simp
  then have "6 \<le> length (string_of_nat (nat t))"
    using length_string_of_nat [of 5 "nat t"] by simp
  from slice_last_6_shape [OF this] obtain a b c d e f
    where eq: "slice_last 6 (string_of_nat (nat t)) = [a, b, c, d, e, f]"
      and sub: "set [a, b, c, d, e, f] \<subseteq> set (string_of_nat (nat t))"
    by blast
  from sub have "is_digit a" "is_digit b" "is_digit c" "is_digit d" "is_digit e" "is_digit f"
    by (auto intro: string_of_nat_digits)
  then show ?thesis
    unfolding nn eq test_lab_id_regex by simp
qed

subsection \<open>Loading the store\<close>

text \<open>
  C7: \<^verbatim>\<open>loadBookings\<close> never throws. Whatever the disk holds and whether or not the file
  can be read, it returns a document: the parsed one when reading and parsing both
  succeed, and exactly the empty document \<^verbatim>\<open>{bookings: []}\<close> when either fails.
\<close>

theorem loadBookings_never_throws:
  "(\<exists>doc. loadBookings e d = Inr doc) \<and>
   (\<forall>t doc. readFile e d = Inr t \<and> JSON_parse t = Inr doc \<longrightarrow> loadBookings e d = Inr doc) \<and>
   (\<forall>err. readFile e d = Inl err \<longrightarrow> loadBookings e d = Inr \<lparr>bookings = Some []\<rparr>) \<and>
   (\<forall>t err. readFile e d = Inr t \<and> JSON_parse t = Inl err \<longrightarrow>
      loadBookings e d = Inr \<lparr>bookings = Some []\<rparr>)"
  by (auto simp: loadBookings_def try_catch_def and_then_def empty_document_def
      split: sum.splits)

theorem loadBookings_never_throws_witness:
  "loadBookings env0 (Some (Json_text store0)) = Inr store0 \<and>
   loadBookings env0 None = Inr \<lparr>bookings = Some []\<rparr> \<and>
   loadBookings (env0\<lparr>read_ok := False\<rparr>) (Some (Json_text store0)) =
     Inr \<lparr>bookings = Some []\<rparr> \<and>
   loadBookings env0 (Some (Unparseable ''{'')) = Inr \<lparr>bookings = Some []\<rparr>"
  using
    loadBookings_never_throws [of env0 "Some (Json_text store0)"]
    loadBookings_never_throws [of env0 None]
    loadBookings_never_throws [of "env0\<lparr>read_ok := False\<rparr>" "Some (Json_text store0)"]
    loadBookings_never_throws [of env0 "Some (Unparseable ''{'')"]
  by (simp add: readFile_def JSON_parse_def env0_def)

subsection \<open>The handler's paths\<close>

lemma handler_help:
  "action_of args = None \<Longrightarrow>
   handler e args d = Inr \<lparr>reply = help_message, loaded = False, saves = [], disk_after = d\<rparr>"
  by (simp add: action_of_def handler_def split: if_splits)

lemma loadBookings_total: "\<exists>doc. loadBookings e d = Inr doc"
  by (auto simp: loadBookings_def try_catch_def and_then_def split: sum.splits)

lemma handler_switch:
  assumes "action_of args = Some a" and "loadBookings e d = Inr doc"
  shows "handler e args d = catch_all (switch_action a e args doc d) d"
  using assms by (auto simp: action_of_def handler_def and_then_def Let_def split: if_splits)

lemma catch_all_Inr [simp]: "catch_all (Inr r) d = Inr r"
  by (simp add: catch_all_def try_catch_def)

lemma catch_all_Inl [simp]: "catch_all (Inl err) d = Inr (respond error_message d)"
  by (simp add: catch_all_def try_catch_def)

lemma findIndex_from_none:
  "(findIndex_from p xs i = - 1) = (\<forall>x \<in> set xs. \<not> p x)"
  by (induction xs arbitrary: i) auto

lemma findIndex_none: "(findIndex p xs = - 1) = (\<forall>x \<in> set xs. \<not> p x)"
  by (simp add: findIndex_def findIndex_from_none)

lemma findIndex_from_first:
  assumes "\<exists>x \<in> set xs. p x"
  shows "\<exists>k < length xs. findIndex_from p xs i = int (i + k) \<and> p (xs ! k) \<and> (\<forall>j < k. \<not> p (xs ! j))"
  using assms
proof (induction xs arbitrary: i)
  case Nil
  then show ?case by simp
next
  case (Cons x xs)
  show ?case
  proof (cases "p x")
    case True
    then show ?thesis by (intro exI [of _ 0]) simp
  next
    case False
    with Cons.prems have "\<exists>x \<in> set xs. p x" by simp
    from Cons.IH [OF this, of "Suc i"] obtain k where k: "k < length xs"
      "findIndex_from p xs (Suc i) = int (Suc i + k)" "p (xs ! k)" "\<forall>j < k. \<not> p (xs ! j)"
      by blast
    show ?thesis
    proof (intro exI [of _ "Suc k"] conjI allI impI)
      fix j assume "j < Suc k"
      then show "\<not> p ((x # xs) ! j)"
        using False k(4) by (cases j) simp_all
    qed (use False k in simp_all)
  qed
qed

lemma findIndex_first:
  assumes "\<exists>x \<in> set xs. p x"
  shows "\<exists>k < length xs. findIndex p xs = int k \<and> p (xs ! k) \<and> (\<forall>j < k. \<not> p (xs ! j))"
  using findIndex_from_first [OF assms, of 0] by (simp add: findIndex_def)

lemma find_first:
  assumes "k < length xs" and "p (xs ! k)" and "\<forall>j < k. \<not> p (xs ! j)"
  shows "List.find p xs = Some (xs ! k)"
  using assms
proof (induction xs arbitrary: k)
  case Nil
  then show ?case by simp
next
  case (Cons x xs)
  show ?case
  proof (cases k)
    case 0
    with Cons.prems show ?thesis by simp
  next
    case (Suc k')
    with Cons.prems have "\<not> p x" by auto
    moreover have "List.find p xs = Some (xs ! k')"
      using Cons.prems Suc by (intro Cons.IH) auto
    ultimately show ?thesis using Suc by simp
  qed
qed

subsection \<open>Cancelling an id that is not in the store\<close>

text \<open>
  C2: for every store (a loaded document with a bookings list) and every given id that
  equals no record's id in it, the cancel action replies with the not-found message,
  which includes the id; \<^verbatim>\<open>saveBookings\<close> is not called and the file on disk is
  what it was.
\<close>

theorem cancel_unknown_id:
  assumes "action_of args = Some ''cancel''"
    and "truthy (arg args 1)"
    and "loadBookings e d = Inr doc"
    and "bookings doc = Some bs"
    and "\<forall>b \<in> set bs. id_str b \<noteq> args ! 1"
  shows "handler e args d =
           Inr \<lparr>reply = ''*Booking with ID '' @ args ! 1 @ '' not found.*'', loaded = True,
             saves = [], disk_after = d\<rparr> \<and>
         sublist (args ! 1) (''*Booking with ID '' @ args ! 1 @ '' not found.*'')"
proof -
  have "findIndex (\<lambda>b. id_str b = args ! 1) bs = - 1"
    using assms(5) by (simp add: findIndex_none)
  then have "cancel e args doc d = Inr (respond (not_found_message (args ! 1)) d)"
    using assms(2,4) by (simp add: cancel_def bookings_array_def and_then_def)
  then have "handler e args d = Inr (respond (not_found_message (args ! 1)) d)"
    using handler_switch [OF assms(1,3)] by (simp add: switch_action_def)
  moreover have "sublist (args ! 1) (''*Booking with ID '' @ args ! 1 @ '' not found.*'')"
    by (rule sublist_appendI)
  ultimately show ?thesis
    by (simp add: respond_def not_found_message_def)
qed

theorem cancel_unknown_id_witness:
  "handler env0 [''cancel'', ''LAB000000''] (Some (Json_text store0)) =
     Inr \<lparr>reply = ''*Booking with ID LAB000000 not found.*'', loaded = True, saves = [],
       disk_after = Some (Json_text store0)\<rparr>"
proof -
  have 1: "action_of [''cancel'', ''LAB000000''] = Some ''cancel''"
    by code_simp
  have 2: "truthy (arg [''cancel'', ''LAB000000''] 1)"
    by (simp add: truthy_def arg_def)
  have 3: "loadBookings env0 (Some (Json_text store0)) = Inr store0"
    by (simp add: loadBookings_def readFile_def JSON_parse_def try_catch_def and_then_def
        env0_def)
  have 4: "bookings store0 = Some [alice, bob]"
    by (simp add: store0_def)
  have 5: "\<forall>b \<in> set [alice, bob]. id_str b \<noteq> [''cancel'', ''LAB000000''] ! 1"
    by (simp add: alice_def bob_def)
  show ?thesis
    using cancel_unknown_id [OF 1 2 3 4 5] by simp
qed

subsection \<open>The book action\<close>

lemma action_book_truthy: "action_of args = Some a \<Longrightarrow> truthy (arg args 0)"
  by (simp add: action_of_def split: if_splits)

lemma book_messages_distinct:
  "invalid_time_message \<noteq> invalid_date_message"
  "error_message \<noteq> invalid_date_message"
  "error_message \<noteq> invalid_time_message"
  "save_failed_message \<noteq> invalid_date_message"
  "save_failed_message \<noteq> invalid_time_message"
  "confirmation_message i n da ti la \<noteq> invalid_date_message"
  "confirmation_message i n da ti la \<noteq> invalid_time_message"
  by (simp_all add: invalid_time_message_def invalid_date_message_def error_message_def
      save_failed_message_def confirmation_message_def warning_sign_def check_mark_def)

lemma book_bad_date:
  assumes "5 \<le> length args" and "\<not> test date_regex (args ! 2)"
  shows "book e args doc d = Inr (respond invalid_date_message d)"
  using assms by (simp add: book_def)

lemma book_bad_time:
  assumes "5 \<le> length args" and "test date_regex (args ! 2)"
    and "\<not> test time_regex (args ! 3)"
  shows "book e args doc d = Inr (respond invalid_time_message d)"
  using assms by (simp add: book_def)

lemma book_no_array:
  assumes "5 \<le> length args" and "test date_regex (args ! 2)" and "test time_regex (args ! 3)"
    and "bookings doc = None"
  shows "book e args doc d = Inl TypeError"
  using assms by (simp add: book_def bookings_array_def and_then_def)

lemma book_valid:
  assumes "5 \<le> length args" and "test date_regex (args ! 2)" and "test time_regex (args ! 3)"
    and "bookings doc = Some bs"
  shows "book e args doc d =
    Inr \<lparr>reply =
           (if write_ok e
            then confirmation_message (''LAB'' @ slice_last 6 (numberToString (now e)))
                   (args ! 1) (args ! 2) (args ! 3) (args ! 4)
            else save_failed_message),
         loaded = True,
         saves = [doc\<lparr>bookings := Some (bs @
           [\<lparr>id_str = ''LAB'' @ slice_last 6 (numberToString (now e)),
             customerName = args ! 1, date = args ! 2, time = args ! 3, labType = args ! 4,
             status = ''confirmed'', bookingTime = isoNow e\<rparr>])\<rparr>],
         disk_after =
           (if write_ok e
            then Some (Json_text (doc\<lparr>bookings := Some (bs @
              [\<lparr>id_str = ''LAB'' @ slice_last 6 (numberToString (now e)),
                customerName = args ! 1, date = args ! 2, time = args ! 3, labType = args ! 4,
                status = ''confirmed'', bookingTime = isoNow e\<rparr>])\<rparr>))
            else d)\<rparr>"
  using assms by (simp add: book_def bookings_array_def and_then_def saveBookings_def Let_def)

lemma handler_book:
  assumes "action_of args = Some ''book''" and "loadBookings e d = Inr doc"
  shows "handler e args d = catch_all (book e args doc d) d"
  using handler_switch [OF assms] by (simp add: switch_action_def)

subsection \<open>The date check\<close>

text \<open>
  C3: on a book invocation with its four positional arguments, the reply is the
  invalid-date message exactly when the date does not match
  \<^verbatim>\<open>/^\d{4}-\d{2}-\d{2}$/\<close>, and then nothing is saved and the disk is unchanged. The
  check is on the form only: \<^verbatim>\<open>2025-5-1\<close> is rejected, \<^verbatim>\<open>2025-05-01\<close> and
  \<^verbatim>\<open>2025-13-99\<close> are accepted.
\<close>

theorem book_date_check:
  assumes "action_of args = Some ''book''" and "5 \<le> length args"
  shows "(\<exists>r. handler e args d = Inr r \<and>
            (reply r = invalid_date_message \<longleftrightarrow> \<not> test date_regex (args ! 2)) \<and>
            (\<not> test date_regex (args ! 2) \<longrightarrow> saves r = [] \<and> disk_after r = d)) \<and>
         \<not> test date_regex ''2025-5-1'' \<and>
         test date_regex ''2025-05-01'' \<and>
         test date_regex ''2025-13-99''"
proof -
  obtain doc where doc: "loadBookings e d = Inr doc"
    using loadBookings_total by blast
  note h = handler_book [OF assms(1) doc]
  have "\<exists>r. handler e args d = Inr r \<and>
            (reply r = invalid_date_message \<longleftrightarrow> \<not> test date_regex (args ! 2)) \<and>
            (\<not> test date_regex (args ! 2) \<longrightarrow> saves r = [] \<and> disk_after r = d)"
  proof (cases "test date_regex (args ! 2)")
    case False
    then show ?thesis
      using h book_bad_date [OF assms(2) False] by (simp add: respond_def)
  next
    case date: True
    show ?thesis
    proof (cases "test time_regex (args ! 3)")
      case False
      then show ?thesis
        using h book_bad_time [OF assms(2) date False]
        by (simp add: respond_def date book_messages_distinct)
    next
      case time: True
      show ?thesis
      proof (cases "bookings doc")
        case None
        then show ?thesis
          using h book_no_array [OF assms(2) date time None]
          by (simp add: respond_def date book_messages_distinct)
      next
        case (Some bs)
        then show ?thesis
          using h book_valid [OF assms(2) date time Some]
          by (simp add: date book_messages_distinct)
      qed
    qed
  qed
  moreover have "\<not> test date_regex ''2025-5-1''"
    by (simp add: test_date_regex)
  moreover have "test date_regex ''2025-05-01''" "test date_regex ''2025-13-99''"
    by (simp_all add: test_date_regex is_digit_def)
  ultimately show ?thesis by blast
qed

theorem book_date_check_witness:
  "(\<exists>r. handler env0 [''book'', ''Alice'', ''2025-5-1'', ''14:00'', ''chemistry''] None = Inr r \<and>
        reply r = invalid_date_message \<and> saves r = [] \<and> disk_after r = None) \<and>
   (\<exists>r. handler env0 [''Book'', ''Alice'', ''2025-13-99'', ''14:00'', ''chemistry''] None = Inr r \<and>
        reply r \<noteq> invalid_date_message)"
proof -
  have 1: "action_of [''book'', ''Alice'', ''2025-5-1'', ''14:00'', ''chemistry''] = Some ''book''"
    by code_simp
  have 2: "action_of [''Book'', ''Alice'', ''2025-13-99'', ''14:00'', ''chemistry''] = Some ''book''"
    by code_simp
  have 3: "\<not> test date_regex ''2025-5-1''" and 4: "test date_regex ''2025-13-99''"
    by (simp_all add: test_date_regex is_digit_def)
  show ?thesis
    using book_date_check [OF 1, of env0 None] book_date_check [OF 2, of env0 None] 3 4
    by simp
qed

subsection \<open>The time check\<close>

text \<open>
  C4: on a book invocation with its four positional arguments whose date has passed the
  date check, the reply is the invalid-time message exactly when the time does not match
  \<^verbatim>\<open>/^\d{1,2}:\d{2}$/\<close>, and then nothing is saved and the disk is unchanged. The check
  is on the form only: \<^verbatim>\<open>9:5\<close> is rejected, \<^verbatim>\<open>09:05\<close>, \<^verbatim>\<open>9:05\<close> and \<^verbatim>\<open>25:99\<close>
  are accepted.
\<close>

theorem book_time_check:
  assumes "action_of args = Some ''book''" and "5 \<le> length args"
    and "test date_regex (args ! 2)"
  shows "(\<exists>r. handler e args d = Inr r \<and>
            (reply r = invalid_time_message \<longleftrightarrow> \<not> test time_regex (args ! 3)) \<and>
            (\<not> test time_regex (args ! 3) \<longrightarrow> saves r = [] \<and> disk_after r = d)) \<and>
         \<not> test time_regex ''9:5'' \<and>
         test time_regex ''09:05'' \<and>
         test time_regex ''9:05'' \<and>
         test time_regex ''25:99''"
proof -
  obtain doc where doc: "loadBookings e d = Inr doc"
    using loadBookings_total by blast
  note h = handler_book [OF assms(1) doc]
  have "\<exists>r. handler e args d = Inr r \<and>
            (reply r = invalid_time_message \<longleftrightarrow> \<not> test time_regex (args ! 3)) \<and>
            (\<not> test time_regex (args ! 3) \<longrightarrow> saves r = [] \<and> disk_after r = d)"
  proof (cases "test time_regex (args ! 3)")
    case False
    then show ?thesis
      using h book_bad_time [OF assms(2,3) False] by (simp add: respond_def)
  next
    case time: True
    show ?thesis
    proof (cases "bookings doc")
      case None
      then show ?thesis
        using h book_no_array [OF assms(2,3) time None]
        by (simp add: respond_def time book_messages_distinct)
    next
      case (Some bs)
      then show ?thesis
        using h book_valid [OF assms(2,3) time Some]
        by (simp add: time book_messages_distinct)
    qed
  qed
  moreover have "\<not> test time_regex ''9:5''"
    by (simp add: test_time_regex)
  moreover have "test time_regex ''09:05''" "test time_regex ''9:05''" "test time_regex ''25:99''"
    by (simp_all add: test_time_regex is_digit_def)
  ultimately show ?thesis by blast
qed

theorem book_time_check_witness:
  "(\<exists>r. handler env0 [''book'', ''Alice'', ''2025-05-20'', ''9:5'', ''chemistry''] None = Inr r \<and>
        reply r = invalid_time_message \<and> saves r = [] \<and> disk_after r = None) \<and>
   (\<exists>r. handler env0 [''book'', ''Alice'', ''2025-05-20'', ''25:99'', ''chemistry''] None = Inr r \<and>
        reply r \<noteq> invalid_time_message)"
proof -
  have 1: "action_of [''book'', ''Alice'', ''2025-05-20'', ''9:5'', ''chemistry''] = Some ''book''"
    by code_simp
  have 2: "action_of [''book'', ''Alice'', ''2025-05-20'', ''25:99'', ''chemistry''] = Some ''book''"
    by code_simp
  have 3: "test date_regex ''2025-05-20''"
    by (simp add: test_date_regex is_digit_def)
  have 4: "\<not> test time_regex ''9:5''" and 5: "test time_regex ''25:99''"
    by (simp_all add: test_time_regex is_digit_def)
  show ?thesis
    using book_time_check [OF 1, of env0 None] book_time_check [OF 2, of env0 None] 3 4 5
    by simp
qed

subsection \<open>A valid booking\<close>

lemma slice_last_timestamp:
  assumes "100000 \<le> t"
  shows "length (slice_last 6 (numberToString t)) = 6"
    and "\<forall>c \<in> set (slice_last 6 (numberToString t)). is_digit c"
    and "suffix (slice_last 6 (numberToString t)) (numberToString t)"
proof -
  have nn: "numberToString t = string_of_nat (nat t)"
    using assms by (simp add: numberToString_def)
  have "10 ^ 5 \<le> nat t" using assms by simp
  then have "6 \<le> length (string_of_nat (nat t))"
    using length_string_of_nat [of 5 "nat t"] by simp
  then show "length (slice_last 6 (numberToString t)) = 6"
    by (simp add: nn slice_last_def)
  have "set (slice_last 6 (numberToString t)) \<subseteq> set (string_of_nat (nat t))"
    by (simp add: nn slice_last_def set_drop_subset)
  then show "\<forall>c \<in> set (slice_last 6 (numberToString t)). is_digit c"
    by (auto intro: string_of_nat_digits)
  show "suffix (slice_last 6 (numberToString t)) (numberToString t)"
    by (simp add: slice_last_def suffix_drop)
qed

lemma confirmation_contains:
  "sublist i (confirmation_message i n da ti la)"
  "sublist n (confirmation_message i n da ti la)"
  "sublist da (confirmation_message i n da ti la)"
  "sublist ti (confirmation_message i n da ti la)"
  "sublist la (confirmation_message i n da ti la)"
  by (simp_all add: confirmation_message_def sublist_append sublist_Cons_right)

text \<open>
  C1: a book invocation with its four positional arguments, a date and a time that pass
  the format checks, on a store with a bookings list, hands to \<^verbatim>\<open>saveBookings\<close> the
  store with exactly one record added at the end. The record carries the name, date, time
  and lab type of the arguments verbatim, the status \<^verbatim>\<open>confirmed\<close>, and the id
  \<^verbatim>\<open>LAB\<close> followed by the last six digits of the timestamp, which matches
  \<^verbatim>\<open>/^LAB\d{6}$/\<close> (the timestamp has six digits or more). When the save succeeds the
  file holds that store and the confirmation contains the id and the four field values.
\<close>

theorem book_appends_record:
  assumes "action_of args = Some ''book''" and "5 \<le> length args"
    and "test date_regex (args ! 2)" and "test time_regex (args ! 3)"
    and "loadBookings e d = Inr doc" and "bookings doc = Some bs"
    and "100000 \<le> now e"
  shows "\<exists>r nb.
     handler e args d = Inr r \<and>
     saves r = [doc\<lparr>bookings := Some (bs @ [nb])\<rparr>] \<and>
     customerName nb = args ! 1 \<and> date nb = args ! 2 \<and> time nb = args ! 3 \<and>
     labType nb = args ! 4 \<and> status nb = ''confirmed'' \<and> bookingTime nb = isoNow e \<and>
     id_str nb = ''LAB'' @ slice_last 6 (numberToString (now e)) \<and>
     length (slice_last 6 (numberToString (now e))) = 6 \<and>
     (\<forall>c \<in> set (slice_last 6 (numberToString (now e))). is_digit c) \<and>
     suffix (slice_last 6 (numberToString (now e))) (numberToString (now e)) \<and>
     test lab_id_regex (id_str nb) \<and>
     (write_ok e \<longrightarrow>
        disk_after r = Some (Json_text (doc\<lparr>bookings := Some (bs @ [nb])\<rparr>)) \<and>
        reply r = confirmation_message (id_str nb) (args ! 1) (args ! 2) (args ! 3) (args ! 4) \<and>
        sublist (id_str nb) (reply r) \<and> sublist (args ! 1) (reply r) \<and>
        sublist (args ! 2) (reply r) \<and> sublist (args ! 3) (reply r) \<and>
        sublist (args ! 4) (reply r)) \<and>
     (\<not> write_ok e \<longrightarrow> disk_after r = d \<and> reply r = save_failed_message)"
proof -
  define nb where "nb = \<lparr>id_str = ''LAB'' @ slice_last 6 (numberToString (now e)),
    customerName = args ! 1, date = args ! 2, time = args ! 3, labType = args ! 4,
    status = ''confirmed'', bookingTime = isoNow e\<rparr>"
  define r where "r = \<lparr>reply =
      (if write_ok e
       then confirmation_message (''LAB'' @ slice_last 6 (numberToString (now e)))
              (args ! 1) (args ! 2) (args ! 3) (args ! 4)
       else save_failed_message),
    loaded = True, saves = [doc\<lparr>bookings := Some (bs @ [nb])\<rparr>],
    disk_after =
      (if write_ok e then Some (Json_text (doc\<lparr>bookings := Some (bs @ [nb])\<rparr>)) else d)\<rparr>"
  have "book e args doc d = Inr r"
    unfolding r_def nb_def by (rule book_valid [OF assms(2,3,4,6)])
  then have run: "handler e args d = Inr r"
    using handler_book [OF assms(1,5)] by simp
  note ts = slice_last_timestamp [OF assms(7)]
  have idf: "test lab_id_regex (id_str nb)"
    using bookingId_form [OF assms(7)] by (simp add: nb_def)
  have fields: "customerName nb = args ! 1" "date nb = args ! 2" "time nb = args ! 3"
    "labType nb = args ! 4" "status nb = ''confirmed''" "bookingTime nb = isoNow e"
    "id_str nb = ''LAB'' @ slice_last 6 (numberToString (now e))"
    by (simp_all add: nb_def)
  have sv: "saves r = [doc\<lparr>bookings := Some (bs @ [nb])\<rparr>]"
    by (simp add: r_def)
  have ok: "write_ok e \<longrightarrow>
        disk_after r = Some (Json_text (doc\<lparr>bookings := Some (bs @ [nb])\<rparr>)) \<and>
        reply r = confirmation_message (id_str nb) (args ! 1) (args ! 2) (args ! 3) (args ! 4) \<and>
        sublist (id_str nb) (reply r) \<and> sublist (args ! 1) (reply r) \<and>
        sublist (args ! 2) (reply r) \<and> sublist (args ! 3) (reply r) \<and>
        sublist (args ! 4) (reply r)"
    by (simp add: r_def fields confirmation_contains)
  have ko: "\<not> write_ok e \<longrightarrow> disk_after r = d \<and> reply r = save_failed_message"
    by (simp add: r_def)
  show ?thesis
    using run sv fields ts idf ok ko by blast
qed

lemma string_of_nat_numeral:
  "string_of_nat (numeral k) =
     (if (numeral k :: nat) < 10 then [digit_char (numeral k)]
      else string_of_nat (numeral k div 10) @ [digit_char (numeral k mod 10)])"
  by (rule string_of_nat.simps)

lemma timestamp_env0: "slice_last 6 (numberToString (now env0)) = ''600123''"
  by (simp add: env0_def numberToString_def string_of_nat_numeral digit_char_def slice_last_def)

theorem book_appends_record_witness:
  "\<exists>r. handler env0 [''book'', ''Alice'', ''2025-05-20'', ''14:00'', ''chemistry''] None = Inr r \<and>
     saves r = [\<lparr>bookings = Some [alice]\<rparr>] \<and>
     test lab_id_regex (id_str alice) \<and>
     disk_after r = Some (Json_text \<lparr>bookings = Some [alice]\<rparr>) \<and>
     reply r = confirmation_message ''LAB600123'' ''Alice'' ''2025-05-20'' ''14:00'' ''chemistry'' \<and>
     sublist ''LAB600123'' (reply r) \<and> sublist ''Alice'' (reply r)"
proof -
  have 1: "action_of [''book'', ''Alice'', ''2025-05-20'', ''14:00'', ''chemistry''] = Some ''book''"
    by code_simp
  have 2: "5 \<le> length [''book'', ''Alice'', ''2025-05-20'', ''14:00'', ''chemistry'']"
    by simp
  have 3: "test date_regex ([''book'', ''Alice'', ''2025-05-20'', ''14:00'', ''chemistry''] ! 2)"
    by (simp add: test_date_regex is_digit_def)
  have 4: "test time_regex ([''book'', ''Alice'', ''2025-05-20'', ''14:00'', ''chemistry''] ! 3)"
    by (simp add: test_time_regex is_digit_def)
  have 5: "loadBookings env0 None = Inr empty_document"
    by (simp add: loadBookings_def readFile_def try_catch_def and_then_def)
  have 6: "bookings empty_document = Some []"
    by (simp add: empty_document_def)
  have 7: "100000 \<le> now env0"
    by (simp add: env0_def)
  have 8: "write_ok env0" "isoNow env0 = ''2025-05-20T14:00:00.123Z''"
    by (simp_all add: env0_def)
  have nb: "nb = alice"
    if "customerName nb = ''Alice''" "date nb = ''2025-05-20''" "time nb = ''14:00''"
      "labType nb = ''chemistry''" "status nb = ''confirmed''"
      "bookingTime nb = ''2025-05-20T14:00:00.123Z''" "id_str nb = ''LAB600123''" for nb
    using that by (cases nb) (simp add: alice_def)
  from book_appends_record [OF 1 2 3 4 5 6 7] obtain r nb where
    "handler env0 [''book'', ''Alice'', ''2025-05-20'', ''14:00'', ''chemistry''] None = Inr r"
    "saves r = [empty_document\<lparr>bookings := Some ([] @ [nb])\<rparr>]"
    "customerName nb = ''Alice''" "date nb = ''2025-05-20''" "time nb = ''14:00''"
    "labType nb = ''chemistry''" "status nb = ''confirmed''"
    "bookingTime nb = ''2025-05-20T14:00:00.123Z''" "id_str nb = ''LAB600123''"
    "test lab_id_regex (id_str nb)"
    "disk_after r = Some (Json_text (empty_document\<lparr>bookings := Some ([] @ [nb])\<rparr>))"
    "reply r = confirmation_message (id_str nb) ''Alice'' ''2025-05-20'' ''14:00'' ''chemistry''"
    "sublist (id_str nb) (reply r)" "sublist ''Alice'' (reply r)"
    unfolding timestamp_env0 using 8 by auto
  moreover from this have "nb = alice" by (intro nb)
  ultimately show ?thesis
    by (intro exI [of _ r]) (simp add: empty_document_def alice_def)
qed

subsection \<open>Cancelling and inspecting a booking\<close>

lemma findIndex_eq:
  assumes "k < length xs" and "p (xs ! k)" and "\<forall>j < k. \<not> p (xs ! j)"
  shows "findIndex p xs = int k"
proof -
  have "\<exists>x \<in> set xs. p x"
    using assms(1,2) nth_mem by blast
  from findIndex_first [OF this] obtain k' where k': "k' < length xs"
    "findIndex p xs = int k'" "p (xs ! k')" "\<forall>j < k'. \<not> p (xs ! j)"
    by blast
  have "\<not> k' < k" using assms(3) k'(3) by blast
  moreover have "\<not> k < k'" using assms(2) k'(4) by blast
  ultimately have "k' = k" by simp
  with k'(2) show ?thesis by simp
qed

lemma first_match:
  assumes "\<exists>b \<in> set bs. id_str b = i"
  shows "\<exists>k < length bs. id_str (bs ! k) = i \<and> (\<forall>j < k. id_str (bs ! j) \<noteq> i)"
  using findIndex_first [of bs "\<lambda>b. id_str b = i"] assms by blast

lemma cancel_found:
  assumes "truthy (arg args 1)" and "bookings doc = Some bs"
    and "k < length bs" and "id_str (bs ! k) = args ! 1"
    and "\<forall>j < k. id_str (bs ! j) \<noteq> args ! 1"
  shows "cancel e args doc d =
    Inr \<lparr>reply = (if write_ok e then cancelled_message (args ! 1) else cancel_failed_message),
         loaded = True,
         saves = [doc\<lparr>bookings := Some (bs[k := (bs ! k)\<lparr>status := ''cancelled''\<rparr>])\<rparr>],
         disk_after =
           (if write_ok e
            then Some (Json_text
              (doc\<lparr>bookings := Some (bs[k := (bs ! k)\<lparr>status := ''cancelled''\<rparr>])\<rparr>))
            else d)\<rparr>"
proof -
  have "findIndex (\<lambda>b. id_str b = args ! 1) bs = int k"
    using assms(3,4,5) by (intro findIndex_eq) simp_all
  then show ?thesis
    using assms(1,2)
    by (simp add: cancel_def bookings_array_def and_then_def saveBookings_def Let_def)
qed

lemma status_found:
  assumes "truthy (arg args 1)" and "bookings doc = Some bs"
    and "k < length bs" and "id_str (bs ! k) = args ! 1"
    and "\<forall>j < k. id_str (bs ! j) \<noteq> args ! 1"
  shows "status_action e args doc d = Inr (respond (status_message e (bs ! k)) d)"
proof -
  have "List.find (\<lambda>b. id_str b = args ! 1) bs = Some (bs ! k)"
    using assms(3,4,5) by (intro find_first) simp_all
  then show ?thesis
    using assms(1,2) by (simp add: status_action_def bookings_array_def and_then_def)
qed

lemma handler_cancel:
  assumes "action_of args = Some ''cancel''" and "loadBookings e d = Inr doc"
  shows "handler e args d = catch_all (cancel e args doc d) d"
  using handler_switch [OF assms] by (simp add: switch_action_def)

lemma handler_status:
  assumes "action_of args = Some ''status''" and "loadBookings e d = Inr doc"
  shows "handler e args d = catch_all (status_action e args doc d) d"
  using handler_switch [OF assms] by (simp add: switch_action_def)

lemma status_message_text:
  "status_message e b =
     ''*'' @ [CHR 0xF0, CHR 0x9F, CHR 0x94, CHR 0x8D] @ '' Booking Status*'' @
     [CHR 0x0A, CHR 0x0A] @
     ''*Booking ID:* '' @ id_str b @ [CHR 0x0A] @
     ''*Customer:* '' @ customerName b @ [CHR 0x0A] @
     ''*Date:* '' @ date b @ [CHR 0x0A] @
     ''*Time:* '' @ time b @ [CHR 0x0A] @
     ''*Lab Type:* '' @ labType b @ [CHR 0x0A] @
     ''*Status:* '' @ status b @ [CHR 0x0A] @
     ''*Booked on:* '' @ toLocaleString e (bookingTime b)"
  by (simp add: status_message_def magnifier_def nl_def)

lemma status_message_contains:
  "sublist (id_str b) (status_message e b)"
  "sublist (customerName b) (status_message e b)"
  "sublist (date b) (status_message e b)"
  "sublist (time b) (status_message e b)"
  "sublist (labType b) (status_message e b)"
  "sublist (status b) (status_message e b)"
  "sublist (toLocaleString e (bookingTime b)) (status_message e b)"
  by (simp_all add: status_message_def sublist_append sublist_Cons_right)

text \<open>
  C9: lookups take the first match. In a store where records have the given id (two or
  more sharing it included), with \<open>k\<close> the index of the first of them: the cancel action
  hands to \<^verbatim>\<open>saveBookings\<close> the store in which record \<open>k\<close> has the status
  \<^verbatim>\<open>cancelled\<close> and every other record, later duplicates included, is what it was; the
  reply of the status action is the status text of record \<open>k\<close>, with its id, customer
  name, date, time, lab type, status and localized booking time.
\<close>

theorem lookups_take_first_match:
  assumes "truthy (arg args 1)"
    and "loadBookings e d = Inr doc" and "bookings doc = Some bs"
    and "\<exists>b \<in> set bs. id_str b = args ! 1"
  shows "\<exists>k < length bs.
     id_str (bs ! k) = args ! 1 \<and> (\<forall>j < k. id_str (bs ! j) \<noteq> args ! 1) \<and>
     (action_of args = Some ''cancel'' \<longrightarrow>
        (\<exists>r bs'. handler e args d = Inr r \<and>
           saves r = [doc\<lparr>bookings := Some bs'\<rparr>] \<and>
           length bs' = length bs \<and>
           bs' ! k = (bs ! k)\<lparr>status := ''cancelled''\<rparr> \<and>
           (\<forall>j < length bs. j \<noteq> k \<longrightarrow> bs' ! j = bs ! j) \<and>
           (write_ok e \<longrightarrow> disk_after r = Some (Json_text (doc\<lparr>bookings := Some bs'\<rparr>))))) \<and>
     (action_of args = Some ''status'' \<longrightarrow>
        (\<exists>r. handler e args d = Inr r \<and>
           r = \<lparr>reply =
                  ''*'' @ [CHR 0xF0, CHR 0x9F, CHR 0x94, CHR 0x8D] @ '' Booking Status*'' @
                  [CHR 0x0A, CHR 0x0A] @
                  ''*Booking ID:* '' @ id_str (bs ! k) @ [CHR 0x0A] @
                  ''*Customer:* '' @ customerName (bs ! k) @ [CHR 0x0A] @
                  ''*Date:* '' @ date (bs ! k) @ [CHR 0x0A] @
                  ''*Time:* '' @ time (bs ! k) @ [CHR 0x0A] @
                  ''*Lab Type:* '' @ labType (bs ! k) @ [CHR 0x0A] @
                  ''*Status:* '' @ status (bs ! k) @ [CHR 0x0A] @
                  ''*Booked on:* '' @ toLocaleString e (bookingTime (bs ! k)),
                loaded = True, saves = [], disk_after = d\<rparr> \<and>
           sublist (id_str (bs ! k)) (reply r) \<and>
           sublist (customerName (bs ! k)) (reply r) \<and>
           sublist (date (bs ! k)) (reply r) \<and>
           sublist (time (bs ! k)) (reply r) \<and>
           sublist (labType (bs ! k)) (reply r) \<and>
           sublist (status (bs ! k)) (reply r) \<and>
           sublist (toLocaleString e (bookingTime (bs ! k))) (reply r)))"
proof -
  from first_match [OF assms(4)] obtain k where k: "k < length bs"
    "id_str (bs ! k) = args ! 1" "\<forall>j < k. id_str (bs ! j) \<noteq> args ! 1"
    by blast
  define bs' where "bs' = bs[k := (bs ! k)\<lparr>status := ''cancelled''\<rparr>]"
  have c: "\<exists>r bs'. handler e args d = Inr r \<and>
           saves r = [doc\<lparr>bookings := Some bs'\<rparr>] \<and>
           length bs' = length bs \<and>
           bs' ! k = (bs ! k)\<lparr>status := ''cancelled''\<rparr> \<and>
           (\<forall>j < length bs. j \<noteq> k \<longrightarrow> bs' ! j = bs ! j) \<and>
           (write_ok e \<longrightarrow> disk_after r = Some (Json_text (doc\<lparr>bookings := Some bs'\<rparr>)))"
    if act: "action_of args = Some ''cancel''"
  proof -
    have "handler e args d = cancel e args doc d"
      using handler_cancel [OF act assms(2)] cancel_found [OF assms(1,3) k] by simp
    then show ?thesis
      unfolding cancel_found [OF assms(1,3) k]
      by (intro exI [of _ bs'] exI conjI, assumption) (simp_all add: bs'_def k(1))
  qed
  define r where "r = \<lparr>reply = status_message e (bs ! k), loaded = True, saves = [],
    disk_after = d\<rparr>"
  have s: "handler e args d = Inr r" if act: "action_of args = Some ''status''"
    using handler_status [OF act assms(2)] status_found [OF assms(1,3) k]
    by (simp add: respond_def r_def)
  have spelled: "r = \<lparr>reply =
                  ''*'' @ [CHR 0xF0, CHR 0x9F, CHR 0x94, CHR 0x8D] @ '' Booking Status*'' @
                  [CHR 0x0A, CHR 0x0A] @
                  ''*Booking ID:* '' @ id_str (bs ! k) @ [CHR 0x0A] @
                  ''*Customer:* '' @ customerName (bs ! k) @ [CHR 0x0A] @
                  ''*Date:* '' @ date (bs ! k) @ [CHR 0x0A] @
                  ''*Time:* '' @ time (bs ! k) @ [CHR 0x0A] @
                  ''*Lab Type:* '' @ labType (bs ! k) @ [CHR 0x0A] @
                  ''*Status:* '' @ status (bs ! k) @ [CHR 0x0A] @
                  ''*Booked on:* '' @ toLocaleString e (bookingTime (bs ! k)),
                loaded = True, saves = [], disk_after = d\<rparr>"
    unfolding r_def status_message_text ..
  have sub: "sublist (id_str (bs ! k)) (reply r)"
    "sublist (customerName (bs ! k)) (reply r)"
    "sublist (date (bs ! k)) (reply r)"
    "sublist (time (bs ! k)) (reply r)"
    "sublist (labType (bs ! k)) (reply r)"
    "sublist (status (bs ! k)) (reply r)"
    "sublist (toLocaleString e (bookingTime (bs ! k))) (reply r)"
    by (simp_all add: r_def status_message_contains)
  show ?thesis
    using k c s spelled sub by blast
qed

lemma load_store0: "loadBookings env0 (Some (Json_text store0)) = Inr store0"
  by (simp add: loadBookings_def readFile_def JSON_parse_def try_catch_def and_then_def
      env0_def)

lemma list2_eq:
  assumes "length xs = 2" and "xs ! 0 = a" and "xs ! 1 = b"
  shows "xs = [a, b]"
  using assms by (auto simp: length_Suc_conv numeral_2_eq_2)

theorem lookups_take_first_match_witness:
  "(\<exists>r. handler env0 [''cancel'', ''LAB600123''] (Some (Json_text store0)) = Inr r \<and>
      saves r = [\<lparr>bookings = Some [alice\<lparr>status := ''cancelled''\<rparr>, bob]\<rparr>] \<and>
      disk_after r = Some (Json_text \<lparr>bookings = Some [alice\<lparr>status := ''cancelled''\<rparr>, bob]\<rparr>)) \<and>
   (\<exists>r. handler env0 [''status'', ''LAB600123''] (Some (Json_text store0)) = Inr r \<and>
      reply r =
        ''*'' @ [CHR 0xF0, CHR 0x9F, CHR 0x94, CHR 0x8D] @ '' Booking Status*'' @
        [CHR 0x0A, CHR 0x0A] @
        ''*Booking ID:* LAB600123'' @ [CHR 0x0A] @
        ''*Customer:* Alice'' @ [CHR 0x0A] @
        ''*Date:* 2025-05-20'' @ [CHR 0x0A] @
        ''*Time:* 14:00'' @ [CHR 0x0A] @
        ''*Lab Type:* chemistry'' @ [CHR 0x0A] @
        ''*Status:* confirmed'' @ [CHR 0x0A] @
        ''*Booked on:* 2025-05-20T14:00:00.123Z'' \<and>
      sublist ''Alice'' (reply r) \<and> \<not> sublist ''Bob'' (reply r) \<and>
      saves r = [] \<and> disk_after r = Some (Json_text store0))"
proof -
  have t: "truthy (arg [''cancel'', ''LAB600123''] 1)" "truthy (arg [''status'', ''LAB600123''] 1)"
    by (simp_all add: truthy_def arg_def)
  have b: "bookings store0 = Some [alice, bob]"
    by (simp add: store0_def)
  have m: "\<exists>b \<in> set [alice, bob]. id_str b = [''cancel'', ''LAB600123''] ! 1"
    "\<exists>b \<in> set [alice, bob]. id_str b = [''status'', ''LAB600123''] ! 1"
    by (simp_all add: alice_def)
  have a: "action_of [''cancel'', ''LAB600123''] = Some ''cancel''"
    "action_of [''status'', ''LAB600123''] = Some ''status''"
    by code_simp+
  have w: "write_ok env0" by (simp add: env0_def)
  have first: "k = 0" if "\<forall>j < k. id_str ([alice, bob] ! j) \<noteq> ''LAB600123''" for k
  proof (rule ccontr)
    assume "k \<noteq> 0"
    then have "id_str ([alice, bob] ! 0) \<noteq> ''LAB600123''" using that by blast
    then show False by (simp add: alice_def)
  qed
  from lookups_take_first_match [OF t(1) load_store0 b m(1)] a(1) w
  obtain k r bs' where k: "\<forall>j < k. id_str ([alice, bob] ! j) \<noteq> ''LAB600123''"
    and r: "handler env0 [''cancel'', ''LAB600123''] (Some (Json_text store0)) = Inr r"
      "saves r = [store0\<lparr>bookings := Some bs'\<rparr>]"
      "length bs' = length [alice, bob]"
      "bs' ! k = ([alice, bob] ! k)\<lparr>status := ''cancelled''\<rparr>"
      "\<forall>j < length [alice, bob]. j \<noteq> k \<longrightarrow> bs' ! j = [alice, bob] ! j"
      "disk_after r = Some (Json_text (store0\<lparr>bookings := Some bs'\<rparr>))"
    by auto
  have k0: "k = 0" using first [OF k] .
  have "bs' = [alice\<lparr>status := ''cancelled''\<rparr>, bob]"
    using r(3,4,5) unfolding k0 by (intro list2_eq) simp_all
  then have c: "\<exists>r. handler env0 [''cancel'', ''LAB600123''] (Some (Json_text store0)) = Inr r \<and>
      saves r = [\<lparr>bookings = Some [alice\<lparr>status := ''cancelled''\<rparr>, bob]\<rparr>] \<and>
      disk_after r = Some (Json_text \<lparr>bookings = Some [alice\<lparr>status := ''cancelled''\<rparr>, bob]\<rparr>)"
    using r(1,2,6) by (simp add: store0_def)
  from lookups_take_first_match [OF t(2) load_store0 b m(2)] a(2)
  obtain k' r' where k': "\<forall>j < k'. id_str ([alice, bob] ! j) \<noteq> ''LAB600123''"
    and s: "handler env0 [''status'', ''LAB600123''] (Some (Json_text store0)) = Inr r'"
      "r' = \<lparr>reply =
                  ''*'' @ [CHR 0xF0, CHR 0x9F, CHR 0x94, CHR 0x8D] @ '' Booking Status*'' @
                  [CHR 0x0A, CHR 0x0A] @
                  ''*Booking ID:* '' @ id_str ([alice, bob] ! k') @ [CHR 0x0A] @
                  ''*Customer:* '' @ customerName ([alice, bob] ! k') @ [CHR 0x0A] @
                  ''*Date:* '' @ date ([alice, bob] ! k') @ [CHR 0x0A] @
                  ''*Time:* '' @ time ([alice, bob] ! k') @ [CHR 0x0A] @
                  ''*Lab Type:* '' @ labType ([alice, bob] ! k') @ [CHR 0x0A] @
                  ''*Status:* '' @ status ([alice, bob] ! k') @ [CHR 0x0A] @
                  ''*Booked on:* '' @ toLocaleString env0 (bookingTime ([alice, bob] ! k')),
                loaded = True, saves = [], disk_after = Some (Json_text store0)\<rparr>"
      "sublist (customerName ([alice, bob] ! k')) (reply r')"
    by auto
  have k'0: "k' = 0" using first [OF k'] .
  have nb: "\<not> sublist ''Bob'' (reply r')"
    unfolding s(2) k'0
    by (simp add: alice_def env0_def sublist_Cons_right prefix_Cons)
  have "\<exists>r. handler env0 [''status'', ''LAB600123''] (Some (Json_text store0)) = Inr r \<and>
      reply r =
        ''*'' @ [CHR 0xF0, CHR 0x9F, CHR 0x94, CHR 0x8D] @ '' Booking Status*'' @
        [CHR 0x0A, CHR 0x0A] @
        ''*Booking ID:* LAB600123'' @ [CHR 0x0A] @
        ''*Customer:* Alice'' @ [CHR 0x0A] @
        ''*Date:* 2025-05-20'' @ [CHR 0x0A] @
        ''*Time:* 14:00'' @ [CHR 0x0A] @
        ''*Lab Type:* chemistry'' @ [CHR 0x0A] @
        ''*Status:* confirmed'' @ [CHR 0x0A] @
        ''*Booked on:* 2025-05-20T14:00:00.123Z'' \<and>
      sublist ''Alice'' (reply r) \<and> \<not> sublist ''Bob'' (reply r) \<and>
      saves r = [] \<and> disk_after r = Some (Json_text store0)"
  proof (intro exI [of _ r'] conjI)
    show "handler env0 [''status'', ''LAB600123''] (Some (Json_text store0)) = Inr r'"
      by (rule s(1))
    show "sublist ''Alice'' (reply r')"
      using s(3) by (simp add: k'0 alice_def)
    show "\<not> sublist ''Bob'' (reply r')" by (rule nb)
  qed (simp_all add: s(2) k'0 alice_def env0_def)
  with c show ?thesis by blast
qed

subsection \<open>Cancelling twice\<close>



subsection \<open>Listing the store\<close>








subsection \<open>Dispatch\<close>

lemma toLowerCase_empty: "toLowerCase a = [] \<longleftrightarrow> a = []"
  by (cases a) simp_all

lemma action_of_Cons: "a \<noteq> [] \<Longrightarrow> action_of (a # rest) = Some (toLowerCase a)"
  by (simp add: action_of_def truthy_def arg_def)

lemma action_of_None: "action_of args = None \<longleftrightarrow> args = [] \<or> hd args = []"
  by (cases args) (simp_all add: action_of_def truthy_def arg_def)

lemma switch_action_first_token:
  "switch_action act e (a' # rest) doc d = switch_action act e (a # rest) doc d"
  by (simp add: switch_action_def book_def cancel_def status_action_def arg_def)

text \<open>
  The guard of the help path is \<^verbatim>\<open>!args[0]\<close>, which holds for an empty first token as
  well as for a missing one: on the one-element list holding the empty string the handler
  answers with the help message and loads nothing, although the list is not empty and its
  token is none of the four keywords.
\<close>

theorem dispatch_counterexample:
  "[''''] \<noteq> ([] :: string list) \<and>
   toLowerCase ([''''] ! 0) \<noteq> ''book'' \<and> toLowerCase ([''''] ! 0) \<noteq> ''view'' \<and>
   toLowerCase ([''''] ! 0) \<noteq> ''cancel'' \<and> toLowerCase ([''''] ! 0) \<noteq> ''status'' \<and>
   handler env0 [''''] None \<noteq>
     Inr \<lparr>reply = unknown_command_message, loaded = True, saves = [], disk_after = None\<rparr> \<and>
   handler env0 [''''] None =
     Inr \<lparr>reply = help_message, loaded = False, saves = [], disk_after = None\<rparr>"
  by (simp add: handler_def truthy_def arg_def)

text \<open>
  C6, amended: if the argument list is empty or its first token is the empty string, the
  handler replies with the help message and does not touch the store. Otherwise it loads
  the store and dispatches on the lower case of the first token, so two invocations that
  differ only in the case of the keyword behave alike, and a token that is none of
  \<^verbatim>\<open>book\<close>, \<^verbatim>\<open>view\<close>, \<^verbatim>\<open>cancel\<close>, \<^verbatim>\<open>status\<close> gets the unknown-command message.
\<close>

theorem handler_dispatch:
  "(args = [] \<or> hd args = [] \<longrightarrow>
      handler e args d =
        Inr \<lparr>reply = help_message, loaded = False, saves = [], disk_after = d\<rparr>) \<and>
   (args \<noteq> [] \<and> hd args \<noteq> [] \<longrightarrow>
      (\<exists>doc. loadBookings e d = Inr doc \<and>
         (toLowerCase (hd args) = ''book'' \<longrightarrow>
            handler e args d = catch_all (book e args doc d) d) \<and>
         (toLowerCase (hd args) = ''view'' \<longrightarrow>
            handler e args d = catch_all (view doc d) d) \<and>
         (toLowerCase (hd args) = ''cancel'' \<longrightarrow>
            handler e args d = catch_all (cancel e args doc d) d) \<and>
         (toLowerCase (hd args) = ''status'' \<longrightarrow>
            handler e args d = catch_all (status_action e args doc d) d)) \<and>
      (\<forall>a'. a' \<noteq> [] \<and> toLowerCase a' = toLowerCase (hd args) \<longrightarrow>
         handler e (a' # tl args) d = handler e args d) \<and>
      (toLowerCase (hd args) \<noteq> ''book'' \<and> toLowerCase (hd args) \<noteq> ''view'' \<and>
       toLowerCase (hd args) \<noteq> ''cancel'' \<and> toLowerCase (hd args) \<noteq> ''status'' \<longrightarrow>
         handler e args d =
           Inr \<lparr>reply = unknown_command_message, loaded = True, saves = [],
             disk_after = d\<rparr>))"
proof (intro conjI impI)
  assume "args = [] \<or> hd args = []"
  then have "action_of args = None" by (simp add: action_of_None)
  then show "handler e args d =
      Inr \<lparr>reply = help_message, loaded = False, saves = [], disk_after = d\<rparr>"
    by (rule handler_help)
next
  assume ne: "args \<noteq> [] \<and> hd args \<noteq> []"
  then obtain a rest where args: "args = a # rest" and a: "a \<noteq> []"
    by (cases args) auto
  have act: "action_of args = Some (toLowerCase a)"
    using a by (simp add: args action_of_Cons)
  obtain doc where doc: "loadBookings e d = Inr doc"
    using loadBookings_total by blast
  note sw = handler_switch [OF act doc]
  show "\<exists>doc. loadBookings e d = Inr doc \<and>
         (toLowerCase (hd args) = ''book'' \<longrightarrow>
            handler e args d = catch_all (book e args doc d) d) \<and>
         (toLowerCase (hd args) = ''view'' \<longrightarrow>
            handler e args d = catch_all (view doc d) d) \<and>
         (toLowerCase (hd args) = ''cancel'' \<longrightarrow>
            handler e args d = catch_all (cancel e args doc d) d) \<and>
         (toLowerCase (hd args) = ''status'' \<longrightarrow>
            handler e args d = catch_all (status_action e args doc d) d)"
    using doc sw by (intro exI [of _ doc]) (simp add: args switch_action_def)
  show "\<forall>a'. a' \<noteq> [] \<and> toLowerCase a' = toLowerCase (hd args) \<longrightarrow>
         handler e (a' # tl args) d = handler e args d"
  proof (intro allI impI)
    fix a' assume a': "a' \<noteq> [] \<and> toLowerCase a' = toLowerCase (hd args)"
    then have "action_of (a' # rest) = Some (toLowerCase a)"
      by (simp add: action_of_Cons args)
    from handler_switch [OF this doc] sw
    show "handler e (a' # tl args) d = handler e args d"
      by (simp add: args switch_action_first_token [of _ _ a' rest _ _ a])
  qed
  assume "toLowerCase (hd args) \<noteq> ''book'' \<and> toLowerCase (hd args) \<noteq> ''view'' \<and>
       toLowerCase (hd args) \<noteq> ''cancel'' \<and> toLowerCase (hd args) \<noteq> ''status''"
  then show "handler e args d =
           Inr \<lparr>reply = unknown_command_message, loaded = True, saves = [],
             disk_after = d\<rparr>"
    using sw by (simp add: args switch_action_def respond_def)
qed

theorem handler_dispatch_witness:
  "handler env0 [] None =
     Inr \<lparr>reply = help_message, loaded = False, saves = [], disk_after = None\<rparr> \<and>
   handler env0 [''VIEW''] None = handler env0 [''view''] None \<and>
   handler env0 [''book'', ''Alice''] None =
     catch_all (book env0 [''book'', ''Alice''] empty_document None) None \<and>
   handler env0 [''reserve'', ''Alice''] None =
     Inr \<lparr>reply = unknown_command_message, loaded = True, saves = [], disk_after = None\<rparr>"
proof -
  have l: "toLowerCase ''VIEW'' = ''view''" "toLowerCase ''view'' = ''view''"
    "toLowerCase ''reserve'' = ''reserve''" "toLowerCase ''book'' = ''book''"
    by code_simp+
  have 3: "loadBookings env0 None = Inr empty_document"
    by (simp add: loadBookings_def readFile_def try_catch_def and_then_def)
  show ?thesis
    using handler_dispatch [of "[]" env0 None]
      handler_dispatch [of "[''view'']" env0 None]
      handler_dispatch [of "[''book'', ''Alice'']" env0 None]
      handler_dispatch [of "[''reserve'', ''Alice'']" env0 None]
    by (simp add: l 3 del: toLowerCase.simps)
qed

subsection \<open>Which invocations write the file\<close>

lemma quiet_catch_all:
  assumes "quiet res d"
  shows "\<exists>r. catch_all res d = Inr r \<and> saves r = [] \<and> disk_after r = d"
  using assms by (auto simp: quiet_def respond_def)

lemma view_quiet: "quiet (view doc d) d"
  by (auto simp: quiet_def view_def split: option.splits)

lemma status_quiet: "quiet (status_action e args doc d) d"
  by (auto simp: quiet_def status_action_def bookings_array_def and_then_def Let_def
      split: option.splits)

lemma cancel_quiet_or_found:
  "quiet (cancel e args doc d) d \<or>
   (truthy (arg args 1) \<and> (\<exists>bs. bookings doc = Some bs \<and> (\<exists>b \<in> set bs. id_str b = args ! 1)))"
proof (cases "truthy (arg args 1)")
  case False
  then show ?thesis by (auto simp: quiet_def cancel_def)
next
  case t: True
  show ?thesis
  proof (cases "bookings doc")
    case None
    then show ?thesis
      using t by (simp add: quiet_def cancel_def bookings_array_def and_then_def)
  next
    case (Some bs)
    show ?thesis
    proof (cases "\<exists>b \<in> set bs. id_str b = args ! 1")
      case True
      then show ?thesis using t Some by simp
    next
      case False
      then have "findIndex (\<lambda>b. id_str b = args ! 1) bs = - 1"
        by (simp add: findIndex_none)
      then show ?thesis
        using t Some by (auto simp: quiet_def cancel_def bookings_array_def and_then_def)
    qed
  qed
qed

lemma book_quiet_or_valid:
  "quiet (book e args doc d) d \<or>
   (5 \<le> length args \<and> test date_regex (args ! 2) \<and> test time_regex (args ! 3))"
proof (cases "5 \<le> length args")
  case False
  then show ?thesis by (auto simp: quiet_def book_def)
next
  case len: True
  show ?thesis
  proof (cases "test date_regex (args ! 2)")
    case False
    then show ?thesis
      using book_bad_date [OF len False] by (auto simp: quiet_def)
  next
    case date: True
    show ?thesis
    proof (cases "test time_regex (args ! 3)")
      case False
      then show ?thesis
        using book_bad_time [OF len date False] by (auto simp: quiet_def)
    next
      case True
      then show ?thesis using len date by simp
    qed
  qed
qed

lemma cancel_total: "\<exists>r. catch_all (cancel e args doc d) d = Inr r"
  by (cases "cancel e args doc d") simp_all

lemma book_total: "\<exists>r. catch_all (book e args doc d) d = Inr r"
  by (cases "book e args doc d") simp_all

text \<open>
  C10: the handler always returns, and unless the action keyword is \<^verbatim>\<open>book\<close> or
  \<^verbatim>\<open>cancel\<close> (help, view, status and unknown keywords alike) it never calls
  \<^verbatim>\<open>saveBookings\<close> and the disk is what it was. An invocation that saves or changes the
  disk is a book invocation with its four positional arguments and a date and a time that
  pass their checks, or a cancel invocation whose id is given and found in the store.
\<close>

theorem only_book_and_cancel_write:
  "\<exists>r. handler e args d = Inr r \<and>
     (action_of args \<noteq> Some ''book'' \<and> action_of args \<noteq> Some ''cancel'' \<longrightarrow>
        saves r = [] \<and> disk_after r = d) \<and>
     (saves r \<noteq> [] \<or> disk_after r \<noteq> d \<longrightarrow>
        (action_of args = Some ''book'' \<and> 5 \<le> length args \<and>
           test date_regex (args ! 2) \<and> test time_regex (args ! 3)) \<or>
        (action_of args = Some ''cancel'' \<and> truthy (arg args 1) \<and>
           (\<exists>doc bs. loadBookings e d = Inr doc \<and> bookings doc = Some bs \<and>
              (\<exists>b \<in> set bs. id_str b = args ! 1))))"
proof (cases "action_of args")
  case None
  then show ?thesis
    using handler_help [OF None, of e d] by simp
next
  case (Some a)
  obtain doc where doc: "loadBookings e d = Inr doc"
    using loadBookings_total by blast
  note sw = handler_switch [OF Some doc]
  consider (book) "a = ''book''" | (cancel) "a = ''cancel''"
    | (other) "a \<noteq> ''book''" "a \<noteq> ''cancel''"
    by blast
  then show ?thesis
  proof cases
    case book
    then have h: "handler e args d = catch_all (book e args doc d) d"
      using sw by (simp add: switch_action_def)
    from book_quiet_or_valid [of e args doc d] show ?thesis
    proof
      assume "quiet (book e args doc d) d"
      from quiet_catch_all [OF this] show ?thesis
        using h by auto
    next
      assume "5 \<le> length args \<and> test date_regex (args ! 2) \<and> test time_regex (args ! 3)"
      then show ?thesis
        using h book_total [of e args doc d] Some book by auto
    qed
  next
    case cancel
    then have h: "handler e args d = catch_all (cancel e args doc d) d"
      using sw by (simp add: switch_action_def)
    from cancel_quiet_or_found [of e args doc d] show ?thesis
    proof
      assume "quiet (cancel e args doc d) d"
      from quiet_catch_all [OF this] show ?thesis
        using h by auto
    next
      assume "truthy (arg args 1) \<and>
        (\<exists>bs. bookings doc = Some bs \<and> (\<exists>b \<in> set bs. id_str b = args ! 1))"
      then show ?thesis
        using h cancel_total [of e args doc d] Some cancel doc by auto
    qed
  next
    case other
    have "quiet (Inr (respond unknown_command_message d)) d"
      unfolding quiet_def by blast
    then have "quiet (switch_action a e args doc d) d"
      using other view_quiet [of doc d] status_quiet [of e args doc d]
      by (simp add: switch_action_def)
    from quiet_catch_all [OF this] show ?thesis
      using sw Some other by auto
  qed
qed

theorem only_book_and_cancel_write_witness:
  "(\<exists>r. handler env0 [''status'', ''LAB600123''] (Some (Json_text store0)) = Inr r \<and>
      saves r = [] \<and> disk_after r = Some (Json_text store0)) \<and>
   (\<exists>r. handler env0 [''delete'', ''LAB600123''] (Some (Json_text store0)) = Inr r \<and>
      saves r = [] \<and> disk_after r = Some (Json_text store0))"
proof -
  have 1: "action_of [''status'', ''LAB600123''] = Some ''status''"
    and 2: "action_of [''delete'', ''LAB600123''] = Some ''delete''"
    by code_simp+
  show ?thesis
    using only_book_and_cancel_write [of env0 "[''status'', ''LAB600123'']" "Some (Json_text store0)"]
      only_book_and_cancel_write [of env0 "[''delete'', ''LAB600123'']" "Some (Json_text store0)"]
    unfolding 1 2 by auto
qed

end
